theory Spec2Isabelle
  imports Main
begin

section \<open>Messages, exceptions and outcomes\<close>

text \<open>
  The items that travel through the queues are Python objects. The module
  \<^verbatim>\<open>atgmlogger/types.py\<close> (classes \<^verbatim>\<open>DataLine\<close>, \<^verbatim>\<open>Command\<close>) is not among
  the sources, so the two message classes are taken as two unrelated classes carrying a
  text payload; \<^verbatim>\<open>None\<close> is the third object that is put on the main queue (by
  \<^verbatim>\<open>Dispatcher.exit\<close>) and the value of \<^verbatim>\<open>item\<close> after a timeout.
\<close>

datatype kind = NoneType | DataLineT | CommandT

datatype item = PyNone | DataLine string | Command string

text \<open>\<^verbatim>\<open>type(item)\<close>\<close>

fun type_of :: "item \<Rightarrow> kind" where
  "type_of PyNone = NoneType"
| "type_of (DataLine _) = DataLineT"
| "type_of (Command _) = CommandT"

datatype exc = AssertionError | TypeError | AttributeError | ValueError | RuntimeError
  | OtherError string

text \<open>
  A call that cannot block gives a pair: the exception it raised, if any, and the state
  it leaves (at the raise, or at its return). A call that can block has an outcome: it
  returns, it raises, or it blocks (a lock, a queue join or a thread join that does not
  come through).
\<close>

datatype 'a outcome = Returns 'a | Raises exc 'a | Blocks

section \<open>PluginInterface (atgmlogger/plugins/__init__.py)\<close>

text \<open>
  One instance of a regular plugin. \<open>consumerType\<close> is the class attribute that
  \<^verbatim>\<open>put\<close> hands to \<^verbatim>\<open>isinstance\<close>: \<open>None\<close> (the default of the base class), or a
  class or tuple of classes. \<open>consumer_type\<close> is what the method \<^verbatim>\<open>consumer_type()\<close>
  of the concrete plugin returns to the dispatcher. \<open>wqueue\<close> is \<^verbatim>\<open>self._queue\<close>,
  oldest item first, \<open>unfinished_tasks\<close> its count of items put and not yet marked
  done, \<open>w_alive\<close> the thread's \<^verbatim>\<open>is_alive()\<close>.
\<close>

record worker =
  wname :: nat
  consumerType :: "kind list option"
  consumer_type :: "kind list"
  exitSig :: bool
  wqueue :: "item list"
  unfinished_tasks :: nat
  w_alive :: bool

text \<open>
  \<^verbatim>\<open>isinstance(item, self.consumerType)\<close>: a \<^verbatim>\<open>TypeError\<close> when the second argument is
  \<^verbatim>\<open>None\<close>; the message classes have no subclasses.
\<close>

definition isinstance :: "item \<Rightarrow> kind list option \<Rightarrow> exc + bool" where
  "isinstance x ct = (case ct of None \<Rightarrow> Inl TypeError | Some ks \<Rightarrow> Inr (type_of x \<in> set ks))"

text \<open>
  \<^verbatim>\<open>
  def put(self, item):
      if isinstance(item, self.consumerType):
          self._queue.put_nowait(item)
  \<close>
  The queue is unbounded, so \<^verbatim>\<open>put_nowait\<close> never raises.
\<close>

definition put_nowait :: "item \<Rightarrow> worker \<Rightarrow> worker" where
  "put_nowait x w = w\<lparr>wqueue := wqueue w @ [x], unfinished_tasks := Suc (unfinished_tasks w)\<rparr>"

definition put :: "worker \<Rightarrow> item \<Rightarrow> exc option \<times> worker" where
  "put w x = (case isinstance x (consumerType w) of
     Inl e \<Rightarrow> (Some e, w)
   | Inr True \<Rightarrow> (None, put_nowait x w)
   | Inr False \<Rightarrow> (None, w))"

text \<open>The state a blocking call leaves behind, whichever way it ended.\<close>

fun state_after :: "'a \<Rightarrow> 'a outcome \<Rightarrow> 'a" where
  "state_after s (Returns s') = s'"
| "state_after s (Raises e s') = s'"
| "state_after s Blocks = s"

text \<open>The kinds \<^verbatim>\<open>put\<close> accepts, as \<open>consumerType\<close> declares them.\<close>

definition accepted_kinds :: "worker \<Rightarrow> kind set" where
  "accepted_kinds w = (case consumerType w of None \<Rightarrow> {} | Some ks \<Rightarrow> set ks)"

text \<open>
  \<^verbatim>\<open>
  def exit(self, join=False):
      if join:
          self._queue.join()
      self._exitSig.set()
  \<close>
  \<^verbatim>\<open>Queue.join\<close> returns once every item put has been marked done; until then the
  caller is blocked. The worker's thread itself is not joined.
\<close>

definition plugin_exit :: "bool \<Rightarrow> worker \<Rightarrow> worker outcome" where
  "plugin_exit join w =
     (if join \<and> unfinished_tasks w \<noteq> 0 then Blocks else Returns (w\<lparr>exitSig := True\<rparr>))"

section \<open>The plugin registry (Dispatcher.register)\<close>

type_synonym params = "(string \<times> string) list"

text \<open>
  A class handed to \<^verbatim>\<open>register\<close>. The two flags are the results of
  \<^verbatim>\<open>issubclass(klass, PluginInterface)\<close> and \<^verbatim>\<open>issubclass(klass, PluginDaemon)\<close>
  (\<^verbatim>\<open>PluginDaemon\<close> is imported by the dispatcher and not among the sources; the two
  tests are independent, and \<^verbatim>\<open>load_plugin\<close> builds classes for which both hold
  when it wraps a class that is not a \<^verbatim>\<open>PluginInterface\<close>). \<open>class_configure\<close> is the
  result of \<^verbatim>\<open>klass.configure(**params)\<close>: \<open>None\<close> when it returns, the exception
  when it raises.
\<close>

record klass =
  class_name :: string
  sub_PluginInterface :: bool
  sub_PluginDaemon :: bool
  class_configure :: "params \<Rightarrow> exc option"

datatype log_level = DEBUG | INFO | WARNING | CRITICAL

record registry =
  plugins :: "klass set"
  daemons :: "klass set"
  params_of :: "klass \<rightharpoonup> params"
  runlock :: bool
  reg_log :: "(log_level \<times> string) list"

text \<open>
  \<^verbatim>\<open>
  def register(cls, klass, **params):
      cls.acquire_lock()
      assert klass is not None
      if issubclass(klass, PluginInterface) and klass not in cls._plugins:
          LOG.debug(...)
          cls._plugins.add(klass)
          cls._params[klass] = params
      elif issubclass(klass, PluginDaemon) and klass not in cls._daemons:
          LOG.debug(...)
          cls._daemons.add(klass)
          try:
              klass.configure(**params)
          except (AttributeError, TypeError):
              LOG.warning("Unable to configure daemon class: ", klass)
          cls._params[klass] = params
      else:
          LOG.info("Class %s is already registered in dispatcher.", str(klass))
      cls.release_lock()
      return klass
  \<close>
  The lock is taken blocking: with the lock held by someone else the call does not
  proceed. An exception leaves the lock held (there is no \<^verbatim>\<open>finally\<close>).
\<close>

definition register :: "klass option \<Rightarrow> params \<Rightarrow> registry \<Rightarrow> registry outcome" where
  "register ko ps r =
     (if runlock r then Blocks
      else let r1 = r\<lparr>runlock := True\<rparr> in
        case ko of
          None \<Rightarrow> Raises AssertionError r1
        | Some k \<Rightarrow>
            if sub_PluginInterface k \<and> k \<notin> plugins r1 then
              Returns (r1\<lparr>reg_log := reg_log r1 @ [(DEBUG, ''Registering class as regular plugin'')],
                          plugins := insert k (plugins r1),
                          params_of := (params_of r1)(k \<mapsto> ps),
                          runlock := False\<rparr>)
            else if sub_PluginDaemon k \<and> k \<notin> daemons r1 then
              (let r2 = r1\<lparr>reg_log := reg_log r1 @ [(DEBUG, ''Registering class as Daemon'')],
                             daemons := insert k (daemons r1)\<rparr>
               in case class_configure k ps of
                    None \<Rightarrow> Returns (r2\<lparr>params_of := (params_of r2)(k \<mapsto> ps), runlock := False\<rparr>)
                  | Some e \<Rightarrow>
                      if e = AttributeError \<or> e = TypeError then
                        Returns (r2\<lparr>reg_log := reg_log r2 @ [(WARNING, ''Unable to configure daemon class'')],
                                    params_of := (params_of r2)(k \<mapsto> ps),
                                    runlock := False\<rparr>)
                      else Raises e r2)
            else
              Returns (r1\<lparr>reg_log := reg_log r1 @ [(INFO, ''Class is already registered in dispatcher.'')],
                          runlock := False\<rparr>))"

section \<open>The Dispatcher thread (atgmlogger/dispatcher.py)\<close>

text \<open>
  The dispatcher's thread: not yet started, started and waiting for the run lock, in
  the routing loop, returned from \<^verbatim>\<open>run\<close>, or ended by an exception that \<^verbatim>\<open>run\<close>
  let through.
\<close>

datatype thread_state = NotStarted | Waiting | Looping | Finished | Died exc

text \<open>
  A registered daemon class: its identity, its static predicate \<^verbatim>\<open>condition(item)\<close>
  and what \<^verbatim>\<open>daemon(context=..., data=item)\<close> followed by \<^verbatim>\<open>inst.start()\<close> does
  (\<open>None\<close>: both return and a thread runs; otherwise the exception raised).
\<close>

record daemon_class =
  dcls :: nat
  condition :: "item \<Rightarrow> bool"
  construct :: "item \<Rightarrow> exc option"

text \<open>
  The state one dispatcher works on. \<open>d_runlock\<close> is the class-level \<^verbatim>\<open>_runlock\<close>,
  \<open>main_queue\<close> is \<^verbatim>\<open>self._queue\<close> (oldest first), \<open>logged\<close> the items the record
  sink's \<^verbatim>\<open>log\<close> has taken, \<open>threads\<close> the plugin instances in \<^verbatim>\<open>self._threads\<close>,
  \<open>active_daemons\<close> the set \<^verbatim>\<open>self._active_daemons\<close>, \<open>live_daemons\<close> the dictionary
  local to \<^verbatim>\<open>run\<close> (daemon class to instance). Daemon instances are numbered as they
  are created (\<open>next_tid\<close>); \<open>alive\<close> holds the instances whose thread is running.

  Two fields only record what happened: \<open>started\<close> lists every daemon instance started
  (instance, class, and whether another instance of the class was alive at that
  moment), \<open>cond_calls\<close> every call of a predicate (class, argument, and whether an
  instance of the class was alive at that moment).
\<close>

record dispatcher =
  d_runlock :: bool
  sig_exit :: bool
  d_thread :: thread_state
  main_queue :: "item list"
  logged :: "item list"
  threads :: "worker list"
  active_daemons :: "nat list"
  live_daemons :: "nat \<rightharpoonup> nat"
  alive :: "nat set"
  next_tid :: nat
  started :: "(nat \<times> nat \<times> bool) list"
  cond_calls :: "(nat \<times> item \<times> bool) list"

text \<open>\<^verbatim>\<open>Dispatcher.__init__\<close>, with the class-level lock free.\<close>

definition new_dispatcher :: dispatcher where
  "new_dispatcher = \<lparr>d_runlock = False, sig_exit = False, d_thread = NotStarted,
     main_queue = [], logged = [], threads = [], active_daemons = [],
     live_daemons = Map.empty, alive = {}, next_tid = 0, started = [], cond_calls = []\<rparr>"

text \<open>\<^verbatim>\<open>Thread.is_alive()\<close> of the dispatcher.\<close>

definition is_alive :: "dispatcher \<Rightarrow> bool" where
  "is_alive s = (d_thread s = Waiting \<or> d_thread s = Looping)"

text \<open>The running instances of a daemon class, oldest first.\<close>

definition live_instances :: "dispatcher \<Rightarrow> nat \<Rightarrow> nat list" where
  "live_instances s c =
     filter (\<lambda>t. t \<in> alive s) (map fst (filter (\<lambda>e. fst (snd e) = c) (started s)))"

subsection \<open>Start of run: the lock and the plugin threads\<close>

text \<open>
  A registered regular plugin class, as \<^verbatim>\<open>run\<close> uses it: what
  \<^verbatim>\<open>plugin(); set_context(...); configure(**params)\<close> does (\<open>None\<close>: all return),
  and the two declarations the new instance carries.
\<close>

record plugin_class =
  instantiate :: "exc option"
  p_consumerType :: "kind list option"
  p_consumer_type :: "kind list"

text \<open>
  \<^verbatim>\<open>
  for plugin in self._plugins:
      try:
          instance = plugin()
          instance.set_context(self._context)
          instance.configure(**self._params[plugin])
      except (TypeError, ValueError, AttributeError, RuntimeError):
          LOG.exception("Error instantiating listener.")
          continue
      else:
          ctypes = instance.consumer_type()
          for ctype in ctypes:
              consumer_set = plugin_type_map.setdefault(ctype, WeakSet())
              consumer_set.add(instance)
          instance.start()
          self._threads.add(instance)
  \<close>
  \<^verbatim>\<open>plugin_type_map\<close> maps a type to the instances whose \<^verbatim>\<open>consumer_type()\<close> holds
  it; the model reads it off the instances (\<open>fan_out\<close> below).
\<close>

fun start_plugins :: "plugin_class list \<Rightarrow> nat \<Rightarrow> exc option \<times> worker list" where
  "start_plugins [] n = (None, [])"
| "start_plugins (p # ps) n =
     (case instantiate p of
        None \<Rightarrow>
          (case start_plugins ps (Suc n) of
             (r, ws) \<Rightarrow> (r, \<lparr>wname = n, consumerType = p_consumerType p,
                              consumer_type = p_consumer_type p, exitSig = False,
                              wqueue = [], unfinished_tasks = 0, w_alive = True\<rparr> # ws))
      | Some e \<Rightarrow>
          if e \<in> {TypeError, ValueError, AttributeError, RuntimeError}
          then start_plugins ps (Suc n)
          else (Some e, []))"

text \<open>\<^verbatim>\<open>Thread.start()\<close>: the thread begins \<^verbatim>\<open>run\<close>, whose first act is to take the lock.\<close>

definition start :: "dispatcher \<Rightarrow> exc option \<times> dispatcher" where
  "start s = (if d_thread s = NotStarted then (None, s\<lparr>d_thread := Waiting\<rparr>)
              else (Some RuntimeError, s))"

text \<open>
  Lines 83 to 110 of \<^verbatim>\<open>run\<close>: \<^verbatim>\<open>self.acquire_lock(blocking=True)\<close> (the thread
  stays waiting while the lock is held elsewhere), the plugin threads, and
  \<^verbatim>\<open>live_daemons = {}\<close>. The record sink's own thread (\<^verbatim>\<open>DataLogger\<close>, not among the
  sources) is represented by \<open>logged\<close> only.
\<close>

definition run_start :: "plugin_class list \<Rightarrow> dispatcher \<Rightarrow> dispatcher" where
  "run_start ps s =
     (if d_thread s \<noteq> Waiting \<or> d_runlock s then s
      else case start_plugins ps (length (threads s)) of
             (Some e, ws) \<Rightarrow>
               s\<lparr>d_runlock := True, threads := threads s @ ws, d_thread := Died e\<rparr>
           | (None, ws) \<Rightarrow>
               s\<lparr>d_runlock := True, threads := threads s @ ws, live_daemons := Map.empty,
                 d_thread := Looping\<rparr>)"

subsection \<open>The routing loop\<close>

text \<open>
  What the rest of the program does during one iteration of the loop: the items other
  threads put on the main queue before the dispatcher's \<^verbatim>\<open>get\<close> gives up, whether
  the record sink's \<^verbatim>\<open>log\<close> raises on this call, and the daemon threads that have
  ended by the time the loop asks \<^verbatim>\<open>is_alive()\<close>.
\<close>

record tick =
  arrivals :: "item list"
  log_raises :: "exc option"
  finished :: "nat list"

text \<open>
  \<^verbatim>\<open>
  for subscriber in plugin_type_map.get(type(item), set()):
      subscriber.put(item)
  \<close>
  An exception of \<^verbatim>\<open>put\<close> ends the loop there.
\<close>

fun fan_out :: "item \<Rightarrow> worker list \<Rightarrow> exc option \<times> worker list" where
  "fan_out x [] = (None, [])"
| "fan_out x (w # ws) =
     (if type_of x \<in> set (consumer_type w) then
        (case put w x of
           (Some e, w') \<Rightarrow> (Some e, w' # ws)
         | (None, w') \<Rightarrow> (case fan_out x ws of (r, ws') \<Rightarrow> (r, w' # ws')))
      else (case fan_out x ws of (r, ws') \<Rightarrow> (r, w # ws')))"

text \<open>
  \<^verbatim>\<open>
  try:
      inst = daemon(context=self._context, data=item)
      inst.start()
      live_daemons[daemon] = inst
  except TypeError:
      LOG.exception(...)
  \<close>
\<close>

definition spawn :: "daemon_class \<Rightarrow> item \<Rightarrow> dispatcher \<Rightarrow> exc option \<times> dispatcher" where
  "spawn d x s =
     (case construct d x of
        None \<Rightarrow>
          (None, s\<lparr>live_daemons := (live_daemons s)(dcls d \<mapsto> next_tid s),
                   alive := insert (next_tid s) (alive s),
                   started := started s @ [(next_tid s, dcls d, live_instances s (dcls d) \<noteq> [])],
                   next_tid := Suc (next_tid s)\<rparr>)
      | Some e \<Rightarrow> if e = TypeError then (None, s) else (Some e, s))"

text \<open>
  \<^verbatim>\<open>if daemon not in live_daemons and daemon.condition(item):\<close> The \<^verbatim>\<open>and\<close> calls the
  predicate only when the class has no entry in the dictionary.
\<close>

definition check_daemon :: "daemon_class \<Rightarrow> item \<Rightarrow> dispatcher \<Rightarrow> exc option \<times> dispatcher" where
  "check_daemon d x s =
     (if live_daemons s (dcls d) = None then
        (let s1 = s\<lparr>cond_calls := cond_calls s @ [(dcls d, x, live_instances s (dcls d) \<noteq> [])]\<rparr>
         in if condition d x then spawn d x s1 else (None, s1))
      else (None, s))"

text \<open>\<^verbatim>\<open>for daemon in self._daemons: ...\<close>\<close>

fun spawn_daemons :: "daemon_class list \<Rightarrow> item \<Rightarrow> dispatcher \<Rightarrow> exc option \<times> dispatcher" where
  "spawn_daemons [] x s = (None, s)"
| "spawn_daemons (d # ds) x s =
     (case check_daemon d x s of
        (Some e, s') \<Rightarrow> (Some e, s')
      | (None, s') \<Rightarrow> spawn_daemons ds x s')"

text \<open>
  \<^verbatim>\<open>live_daemons = {k: v for k, v in live_daemons.items() if v.is_alive()}\<close>, after the
  threads in \<open>fin\<close> have ended.
\<close>

definition prune :: "nat list \<Rightarrow> dispatcher \<Rightarrow> dispatcher" where
  "prune fin s =
     s\<lparr>alive := alive s - set fin,
       live_daemons := (\<lambda>k. case live_daemons s k of
                              None \<Rightarrow> None
                            | Some v \<Rightarrow> if v \<in> alive s - set fin then Some v else None)\<rparr>"

text \<open>The daemon part of one iteration, for the value \<open>x\<close> of \<^verbatim>\<open>item\<close>.\<close>

definition daemon_phase ::
  "daemon_class list \<Rightarrow> item \<Rightarrow> nat list \<Rightarrow> dispatcher \<Rightarrow> exc option \<times> dispatcher" where
  "daemon_phase ds x fin s =
     (case spawn_daemons ds x s of
        (Some e, s') \<Rightarrow> (Some e, s')
      | (None, s') \<Rightarrow> (None, prune fin s'))"

text \<open>
  The body of the loop (lines 112 to 134):
  \<^verbatim>\<open>
  try:
      item = self._queue.get(block=True, timeout=POLL_INTV)
  except queue.Empty:
      item = None
  else:
      logger.log(item)
      for subscriber in plugin_type_map.get(type(item), set()):
          subscriber.put(item)
      self._queue.task_done()
  for daemon in self._daemons: ...
  live_daemons = {...}
  \<close>
  The \<^verbatim>\<open>else\<close> clause is outside the \<^verbatim>\<open>try\<close>: what \<^verbatim>\<open>logger.log\<close> or \<^verbatim>\<open>put\<close>
  raises is not caught. Nothing joins the main queue, so its task counter is left out.
\<close>

definition run_iter :: "daemon_class list \<Rightarrow> tick \<Rightarrow> dispatcher \<Rightarrow> exc option \<times> dispatcher" where
  "run_iter ds t s =
     (case main_queue s @ arrivals t of
        [] \<Rightarrow> daemon_phase ds PyNone (finished t) s
      | x # q \<Rightarrow>
          (let s0 = s\<lparr>main_queue := q\<rparr> in
           case log_raises t of
             Some e \<Rightarrow> (Some e, s0)
           | None \<Rightarrow>
               (let s1 = s0\<lparr>logged := logged s0 @ [x]\<rparr> in
                case fan_out x (threads s1) of
                  (Some e, ws) \<Rightarrow> (Some e, s1\<lparr>threads := ws\<rparr>)
                | (None, ws) \<Rightarrow> daemon_phase ds x (finished t) (s1\<lparr>threads := ws\<rparr>))))"

text \<open>
  One turn of \<^verbatim>\<open>while not self.sig_exit.is_set():\<close> for a thread that is in the loop:
  with the signal set the loop ends and \<^verbatim>\<open>run\<close> releases the lock (line 136) and
  returns; otherwise the body runs, and an exception it lets through ends the thread
  where it stands.
\<close>

definition run_step :: "daemon_class list \<Rightarrow> tick \<Rightarrow> dispatcher \<Rightarrow> dispatcher" where
  "run_step ds t s =
     (if d_thread s \<noteq> Looping then s
      else if sig_exit s then s\<lparr>d_runlock := False, d_thread := Finished\<rparr>
      else case run_iter ds t s of
             (None, s') \<Rightarrow> s'
           | (Some e, s') \<Rightarrow> s'\<lparr>d_thread := Died e\<rparr>)"

fun run_loop :: "daemon_class list \<Rightarrow> tick list \<Rightarrow> dispatcher \<Rightarrow> dispatcher" where
  "run_loop ds [] s = s"
| "run_loop ds (t # ts) s = run_loop ds ts (run_step ds t s)"

section \<open>Properties of PluginInterface.put\<close>

text \<open>
  C4, as the code has it. For a worker that declares a \<open>consumerType\<close> and an item
  whose type is not among the declared kinds, \<^verbatim>\<open>put\<close> returns without an exception
  and leaves the worker exactly as it was: the item is dropped silently. For a worker
  that keeps the default of the base class, \<^verbatim>\<open>consumerType = None\<close>, \<^verbatim>\<open>isinstance\<close>
  raises \<^verbatim>\<open>TypeError\<close> on every item; nothing is enqueued there either.
\<close>

theorem put_drops_unaccepted:
  "(\<forall>ks. consumerType w = Some ks \<and> type_of m \<notin> set ks \<longrightarrow> put w m = (None, w))
   \<and> (consumerType w = None \<longrightarrow> put w m = (Some TypeError, w))"
  by (auto simp: put_def isinstance_def)

text \<open>A worker that takes data lines, and one that keeps the default of the base class.\<close>

definition data_worker :: worker where
  "data_worker = \<lparr>wname = 0, consumerType = Some [DataLineT], consumer_type = [DataLineT],
     exitSig = False, wqueue = [DataLine ''a''], unfinished_tasks = 1, w_alive = True\<rparr>"

definition base_worker :: worker where
  "base_worker = \<lparr>wname = 1, consumerType = None, consumer_type = [DataLineT],
     exitSig = False, wqueue = [], unfinished_tasks = 0, w_alive = True\<rparr>"

theorem put_drops_unaccepted_witness:
  "consumerType data_worker = Some [DataLineT]
   \<and> type_of (Command ''SIGHUP'') \<notin> set [DataLineT]
   \<and> put data_worker (Command ''SIGHUP'') = (None, data_worker)
   \<and> consumerType base_worker = None
   \<and> put base_worker (Command ''SIGHUP'') = (Some TypeError, base_worker)"
proof -
  have h: "consumerType data_worker = Some [DataLineT]"
    "type_of (Command ''SIGHUP'') \<notin> set [DataLineT]"
    "consumerType base_worker = None"
    by (simp_all add: data_worker_def base_worker_def)
  from put_drops_unaccepted [of data_worker "Command ''SIGHUP''"]
    put_drops_unaccepted [of base_worker "Command ''SIGHUP''"] h
  show ?thesis by simp
qed

text \<open>
  C4 as stated fails for the worker with the default \<open>consumerType\<close>: the type of the
  item is not among its accepted kinds, and \<^verbatim>\<open>put\<close> raises instead of dropping the
  item silently.
\<close>

theorem put_raises_at_base_default:
  "type_of (Command ''SIGHUP'') \<notin> accepted_kinds base_worker
   \<and> fst (put base_worker (Command ''SIGHUP'')) = Some TypeError"
  by (simp add: base_worker_def accepted_kinds_def put_def isinstance_def)

section \<open>Properties of Dispatcher.register\<close>

text \<open>
  A class that passes only one of the two subclass tests, or that already sits in both
  sets, falls through to the last branch when it is registered again: both sets and the
  stored parameters stay as they are, one informational message is logged and the lock
  is released.
\<close>

lemma register_again_noop:
  assumes "\<not> runlock r"
    and "(sub_PluginInterface k \<longrightarrow> k \<in> plugins r) \<and> (sub_PluginDaemon k \<longrightarrow> k \<in> daemons r)"
  shows "register (Some k) ps r =
     Returns (r\<lparr>reg_log := reg_log r @ [(INFO, ''Class is already registered in dispatcher.'')]\<rparr>)"
  using assms by (auto simp: register_def Let_def)

text \<open>
  A class that passes both subclass tests (as the classes that \<^verbatim>\<open>load_plugin\<close> wraps
  around a daemon do) is registered as a regular plugin by the first call. The second
  call fails the first test only because the class is already in \<open>plugins\<close>, and so
  reaches the \<^verbatim>\<open>elif\<close>: the class is added to \<open>daemons\<close> and its stored parameters are
  overwritten.
\<close>

definition dual_class :: klass where
  "dual_class = \<lparr>class_name = ''UsbDaemon'', sub_PluginInterface = True,
     sub_PluginDaemon = True, class_configure = (\<lambda>_. None)\<rparr>"

definition empty_registry :: registry where
  "empty_registry = \<lparr>plugins = {}, daemons = {}, params_of = Map.empty, runlock = False,
     reg_log = []\<rparr>"

definition registered_once :: registry where
  "registered_once = state_after empty_registry
     (register (Some dual_class) [(''copy_level'', ''all'')] empty_registry)"

text \<open>
  C10 at a class that is both a \<^verbatim>\<open>PluginInterface\<close> and a \<^verbatim>\<open>PluginDaemon\<close>: after the
  first registration the class is present in the registry (as a regular plugin); the
  second registration returns, and it changes the daemon set and the stored parameters.
\<close>

theorem register_twice_dual_class:
  "dual_class \<in> plugins registered_once
   \<and> daemons registered_once = {}
   \<and> params_of registered_once dual_class = Some [(''copy_level'', ''all'')]
   \<and> (\<exists>r'. register (Some dual_class) [(''copy_level'', ''none'')] registered_once = Returns r'
        \<and> plugins r' = plugins registered_once
        \<and> daemons r' = {dual_class}
        \<and> daemons r' \<noteq> daemons registered_once
        \<and> params_of r' dual_class = Some [(''copy_level'', ''none'')]
        \<and> params_of r' \<noteq> params_of registered_once)"
proof -
  have r1: "registered_once = \<lparr>plugins = {dual_class}, daemons = {},
      params_of = [dual_class \<mapsto> [(''copy_level'', ''all'')]], runlock = False,
      reg_log = [(DEBUG, ''Registering class as regular plugin'')]\<rparr>"
    by (simp add: registered_once_def register_def empty_registry_def dual_class_def)
  have neq: "[dual_class \<mapsto> [(''copy_level'', ''none'')]] \<noteq> [dual_class \<mapsto> [(''copy_level'', ''all'')]]"
  proof
    assume "[dual_class \<mapsto> [(''copy_level'', ''none'')]] = [dual_class \<mapsto> [(''copy_level'', ''all'')]]"
    then have "[dual_class \<mapsto> [(''copy_level'', ''none'')]] dual_class
        = [dual_class \<mapsto> [(''copy_level'', ''all'')]] dual_class"
      by simp
    then show False by simp
  qed
  show ?thesis
    unfolding r1 using neq
    by (simp add: register_def Let_def dual_class_def)
qed

section \<open>At most one live instance per daemon class\<close>

text \<open>
  The invariant of the loop: daemon instances are numbered apart, every instance that is
  still running is the one the dictionary holds for its class, and no instance was ever
  started, and no predicate ever called, while an instance of the class was running.
\<close>

definition daemon_inv :: "dispatcher \<Rightarrow> bool" where
  "daemon_inv s \<longleftrightarrow>
     distinct (map fst (started s))
   \<and> (\<forall>e \<in> set (started s). fst e < next_tid s \<and> \<not> snd (snd e)
         \<and> (fst e \<in> alive s \<longrightarrow> live_daemons s (fst (snd e)) = Some (fst e)))
   \<and> (\<forall>e \<in> set (cond_calls s). \<not> snd (snd e))"

lemma inv_no_entry_no_instance:
  assumes "daemon_inv s" and "live_daemons s c = None"
  shows "live_instances s c = []"
  using assms by (auto simp: daemon_inv_def live_instances_def filter_empty_conv)

lemma distinct_all_equal:
  assumes "distinct xs" and "\<forall>x \<in> set xs. x = a"
  shows "length xs \<le> Suc 0"
proof (cases xs)
  case Nil
  then show ?thesis by simp
next
  case (Cons x ys)
  with assms show ?thesis by (cases ys) auto
qed

lemma inv_at_most_one:
  assumes "daemon_inv s"
  shows "length (live_instances s c) \<le> Suc 0"
proof (cases "live_daemons s c")
  case None
  with assms show ?thesis by (simp add: inv_no_entry_no_instance)
next
  case (Some a)
  have d: "distinct (live_instances s c)"
    using assms by (simp add: daemon_inv_def live_instances_def distinct_map_filter)
  have "\<forall>t \<in> set (live_instances s c). t = a"
    using assms Some by (auto simp: daemon_inv_def live_instances_def)
  with d show ?thesis by (rule distinct_all_equal)
qed

lemma inv_spawn:
  assumes "daemon_inv s" and "live_daemons s (dcls d) = None"
  shows "daemon_inv (snd (spawn d x s))"
proof (cases "construct d x")
  case None
  have "live_instances s (dcls d) = []"
    using assms by (rule inv_no_entry_no_instance)
  with assms None show ?thesis
    by (auto simp: spawn_def daemon_inv_def)
next
  case (Some e)
  with assms show ?thesis by (simp add: spawn_def)
qed

lemma inv_check_daemon:
  assumes "daemon_inv s"
  shows "daemon_inv (snd (check_daemon d x s))"
proof (cases "live_daemons s (dcls d)")
  case (Some t)
  with assms show ?thesis by (simp add: check_daemon_def)
next
  case None
  let ?s1 = "s\<lparr>cond_calls := cond_calls s @ [(dcls d, x, live_instances s (dcls d) \<noteq> [])]\<rparr>"
  have "live_instances s (dcls d) = []"
    using assms None by (rule inv_no_entry_no_instance)
  with assms have i1: "daemon_inv ?s1"
    by (auto simp: daemon_inv_def)
  have n1: "live_daemons ?s1 (dcls d) = None" using None by simp
  from inv_spawn [OF i1 n1] i1 None show ?thesis
    by (simp add: check_daemon_def Let_def)
qed

lemma inv_spawn_daemons:
  "daemon_inv s \<Longrightarrow> daemon_inv (snd (spawn_daemons ds x s))"
proof (induction ds arbitrary: s)
  case Nil
  then show ?case by simp
next
  case (Cons d ds)
  from Cons.prems have c: "daemon_inv (snd (check_daemon d x s))"
    by (rule inv_check_daemon)
  show ?case
  proof (cases "check_daemon d x s")
    case (Pair r s')
    with c have s': "daemon_inv s'" by simp
    show ?thesis
    proof (cases r)
      case None
      with Pair Cons.IH [OF s'] show ?thesis by simp
    next
      case (Some e)
      with Pair s' show ?thesis by simp
    qed
  qed
qed

lemma inv_prune: "daemon_inv s \<Longrightarrow> daemon_inv (prune fin s)"
  by (auto simp: daemon_inv_def prune_def)

lemma inv_daemon_phase:
  assumes "daemon_inv s"
  shows "daemon_inv (snd (daemon_phase ds x fin s))"
proof (cases "spawn_daemons ds x s")
  case (Pair r s')
  with inv_spawn_daemons [OF assms, of ds x] have "daemon_inv s'" by simp
  with Pair show ?thesis
    by (cases r) (simp_all add: daemon_phase_def inv_prune)
qed

lemma inv_frame:
  "daemon_inv (s\<lparr>main_queue := q\<rparr>) = daemon_inv s"
  "daemon_inv (s\<lparr>logged := l\<rparr>) = daemon_inv s"
  "daemon_inv (s\<lparr>threads := ws\<rparr>) = daemon_inv s"
  "daemon_inv (s\<lparr>d_thread := st\<rparr>) = daemon_inv s"
  "daemon_inv (s\<lparr>d_runlock := b\<rparr>) = daemon_inv s"
  "daemon_inv (s\<lparr>sig_exit := b\<rparr>) = daemon_inv s"
  by (simp_all add: daemon_inv_def)

lemma inv_run_iter:
  assumes "daemon_inv s"
  shows "daemon_inv (snd (run_iter ds t s))"
proof (cases "main_queue s @ arrivals t")
  case Nil
  with assms show ?thesis by (simp add: run_iter_def inv_daemon_phase)
next
  case (Cons x q)
  show ?thesis
  proof (cases "log_raises t")
    case (Some e)
    with Cons assms show ?thesis by (simp add: run_iter_def Let_def inv_frame)
  next
    case None
    obtain r ws where f: "fan_out x (threads s) = (r, ws)" by (cases "fan_out x (threads s)")
    let ?s2 = "s\<lparr>main_queue := q, logged := logged s @ [x], threads := ws\<rparr>"
    have i2: "daemon_inv ?s2" using assms by (simp add: inv_frame)
    show ?thesis
    proof (cases r)
      case None
      with \<open>log_raises t = None\<close> Cons f inv_daemon_phase [OF i2] show ?thesis
        by (simp add: run_iter_def Let_def)
    next
      case (Some e)
      with \<open>log_raises t = None\<close> Cons f i2 show ?thesis
        by (simp add: run_iter_def Let_def)
    qed
  qed
qed

lemma inv_run_step:
  assumes "daemon_inv s"
  shows "daemon_inv (run_step ds t s)"
proof -
  obtain r s' where it: "run_iter ds t s = (r, s')" by (cases "run_iter ds t s")
  with inv_run_iter [OF assms, of ds t] have s': "daemon_inv s'" by simp
  show ?thesis
    using assms it s' by (cases r) (simp_all add: run_step_def inv_frame)
qed

lemma inv_run_loop:
  "daemon_inv s \<Longrightarrow> daemon_inv (run_loop ds ts s)"
  by (induction ts arbitrary: s) (simp_all add: inv_run_step)

text \<open>
  The state in which the loop is entered: \<^verbatim>\<open>live_daemons = {}\<close> (line 110), and no
  daemon instance of this run exists yet.
\<close>

definition loop_entry :: "dispatcher \<Rightarrow> dispatcher" where
  "loop_entry s = s\<lparr>live_daemons := Map.empty, alive := {}, started := [], cond_calls := []\<rparr>"

text \<open>
  C1. Whatever arrives on the main queue, whenever daemon threads end and whichever
  daemon classes are registered, after any number of turns of the routing loop every
  daemon class has at most one instance alive; no instance was started while another
  instance of its class was alive, and no predicate was called while an instance of its
  class was alive. (The theorem holds for every sequence of turns, hence after each
  turn; the flags in \<open>started\<close> and \<open>cond_calls\<close> are taken at the moment of the start
  and of the call, inside the turn. Threads only ever end between two observations, so
  the set \<open>alive\<close> of the model is never smaller than the set of threads running.)
\<close>

theorem one_live_daemon_per_class:
  "length (live_instances (run_loop ds ts (loop_entry s)) c) \<le> 1
   \<and> filter (\<lambda>e. snd (snd e)) (started (run_loop ds ts (loop_entry s))) = []
   \<and> filter (\<lambda>e. snd (snd e)) (cond_calls (run_loop ds ts (loop_entry s))) = []"
proof -
  have "daemon_inv (loop_entry s)"
    by (simp add: daemon_inv_def loop_entry_def)
  then have i: "daemon_inv (run_loop ds ts (loop_entry s))"
    by (rule inv_run_loop)
  from inv_at_most_one [OF i, of c] i show ?thesis
    by (auto simp: daemon_inv_def filter_empty_conv)
qed

section \<open>The record sink comes first\<close>

subsection \<open>What each part of the loop leaves alone\<close>

lemma spawn_frame:
  "logged (snd (spawn d x s)) = logged s"
  "threads (snd (spawn d x s)) = threads s"
  "main_queue (snd (spawn d x s)) = main_queue s"
  "d_thread (snd (spawn d x s)) = d_thread s"
  "d_runlock (snd (spawn d x s)) = d_runlock s"
  "sig_exit (snd (spawn d x s)) = sig_exit s"
  "active_daemons (snd (spawn d x s)) = active_daemons s"
  by (simp_all add: spawn_def split: option.split)

lemma check_daemon_frame:
  "logged (snd (check_daemon d x s)) = logged s"
  "threads (snd (check_daemon d x s)) = threads s"
  "main_queue (snd (check_daemon d x s)) = main_queue s"
  "d_thread (snd (check_daemon d x s)) = d_thread s"
  "d_runlock (snd (check_daemon d x s)) = d_runlock s"
  "sig_exit (snd (check_daemon d x s)) = sig_exit s"
  "active_daemons (snd (check_daemon d x s)) = active_daemons s"
  by (simp_all add: check_daemon_def Let_def spawn_frame)

lemma spawn_daemons_frame:
  "logged (snd (spawn_daemons ds x s)) = logged s
   \<and> threads (snd (spawn_daemons ds x s)) = threads s
   \<and> main_queue (snd (spawn_daemons ds x s)) = main_queue s
   \<and> d_thread (snd (spawn_daemons ds x s)) = d_thread s
   \<and> d_runlock (snd (spawn_daemons ds x s)) = d_runlock s
   \<and> sig_exit (snd (spawn_daemons ds x s)) = sig_exit s
   \<and> active_daemons (snd (spawn_daemons ds x s)) = active_daemons s"
proof (induction ds arbitrary: s)
  case Nil
  show ?case by simp
next
  case (Cons d ds)
  obtain r s1 where c: "check_daemon d x s = (r, s1)" by (cases "check_daemon d x s")
  from check_daemon_frame [of d x s] c
  have f: "logged s1 = logged s" "threads s1 = threads s" "main_queue s1 = main_queue s"
    "d_thread s1 = d_thread s" "d_runlock s1 = d_runlock s" "sig_exit s1 = sig_exit s"
    "active_daemons s1 = active_daemons s"
    by simp_all
  show ?case
  proof (cases r)
    case None
    with c Cons.IH [of s1] f show ?thesis by simp
  next
    case (Some e)
    with c f show ?thesis by simp
  qed
qed

lemma daemon_phase_frame:
  "logged (snd (daemon_phase ds x fin s)) = logged s"
  "threads (snd (daemon_phase ds x fin s)) = threads s"
  "main_queue (snd (daemon_phase ds x fin s)) = main_queue s"
  "d_thread (snd (daemon_phase ds x fin s)) = d_thread s"
  "d_runlock (snd (daemon_phase ds x fin s)) = d_runlock s"
  "sig_exit (snd (daemon_phase ds x fin s)) = sig_exit s"
  "active_daemons (snd (daemon_phase ds x fin s)) = active_daemons s"
  using spawn_daemons_frame [of ds x s]
  by (cases "spawn_daemons ds x s"; cases "fst (spawn_daemons ds x s)";
      simp add: daemon_phase_def prune_def)+

lemma run_loop_ended:
  "d_thread s \<noteq> Looping \<Longrightarrow> run_loop ds ts s = s"
  by (induction ts) (simp_all add: run_step_def)

text \<open>
  C5. In a turn of the loop that takes an item \<open>m\<close> from the main queue, the record sink's
  \<^verbatim>\<open>log\<close> is called on it first: when \<^verbatim>\<open>log\<close> returns the item is in the sink,
  whatever happens later in the turn; when \<^verbatim>\<open>log\<close> raises, the exception ends the
  dispatcher's thread, no worker has received the item, no daemon predicate has been
  called, and no later turn does anything.
\<close>

theorem log_failure_ends_run:
  assumes "d_thread s = Looping" and "\<not> sig_exit s"
    and "main_queue s @ arrivals t = m # q"
  shows "(log_raises t = None \<longrightarrow> logged (run_step ds t s) = logged s @ [m])
       \<and> (\<forall>e. log_raises t = Some e \<longrightarrow>
            d_thread (run_step ds t s) = Died e
          \<and> logged (run_step ds t s) = logged s
          \<and> threads (run_step ds t s) = threads s
          \<and> cond_calls (run_step ds t s) = cond_calls s
          \<and> started (run_step ds t s) = started s
          \<and> run_loop ds ts (run_step ds t s) = run_step ds t s)"
proof (cases "log_raises t")
  case (Some e)
  with assms have "run_step ds t s = s\<lparr>main_queue := q, d_thread := Died e\<rparr>"
    by (simp add: run_step_def run_iter_def)
  with Some show ?thesis by (simp add: run_loop_ended)
next
  case None
  obtain r ws where f: "fan_out m (threads s) = (r, ws)" by (cases "fan_out m (threads s)")
  let ?s2 = "s\<lparr>main_queue := q, logged := logged s @ [m], threads := ws\<rparr>"
  have "logged (snd (run_iter ds t s)) = logged s @ [m]"
    using assms None f daemon_phase_frame(1) [of ds m "finished t" ?s2]
    by (cases r) (simp_all add: run_iter_def Let_def)
  then have "logged (run_step ds t s) = logged s @ [m]"
    using assms by (cases "run_iter ds t s"; cases "fst (run_iter ds t s)")
      (simp_all add: run_step_def)
  with None show ?thesis by simp
qed

section \<open>Turns without a message\<close>

subsection \<open>Predicate calls of the daemon loop\<close>






section \<open>Delivery order per worker\<close>

text \<open>
  An item reaches a worker's queue when the dispatcher routes its type to the worker
  (\<^verbatim>\<open>consumer_type()\<close>) and the worker's \<^verbatim>\<open>put\<close> lets it through (\<open>consumerType\<close>);
  for a plugin whose two declarations name the same kinds these are the kinds it
  accepts.
\<close>

definition accepts :: "worker \<Rightarrow> item \<Rightarrow> bool" where
  "accepts w m \<longleftrightarrow> type_of m \<in> set (consumer_type w) \<and> type_of m \<in> accepted_kinds w"

text \<open>What a fan-out does to one worker, and a sequence of fan-outs to all of them.\<close>

definition deliver :: "item \<Rightarrow> worker \<Rightarrow> worker" where
  "deliver x w = (if accepts w x then put_nowait x w else w)"

fun deliver_all :: "item list \<Rightarrow> worker list \<Rightarrow> worker list" where
  "deliver_all [] ws = ws"
| "deliver_all (x # xs) ws = deliver_all xs (map (deliver x) ws)"




lemma deliver_all_length: "length (deliver_all xs ws) = length ws"
  by (induction xs arbitrary: ws) simp_all







section \<open>A run with one worker and one daemon class\<close>

text \<open>
  One regular plugin that takes data lines, one daemon class whose predicate holds for
  commands, and the dispatcher as \<^verbatim>\<open>start()\<close> and the first lines of \<^verbatim>\<open>run\<close> leave it.
\<close>

definition data_plugin :: plugin_class where
  "data_plugin = \<lparr>instantiate = None, p_consumerType = Some [DataLineT],
     p_consumer_type = [DataLineT]\<rparr>"

definition cmd_daemon :: daemon_class where
  "cmd_daemon = \<lparr>dcls = 0, condition = (\<lambda>x. type_of x = CommandT), construct = (\<lambda>x. None)\<rparr>"

definition running :: dispatcher where
  "running = run_start [data_plugin] (snd (start new_dispatcher))"

definition quiet :: tick where
  "quiet = \<lparr>arrivals = [], log_raises = None, finished = []\<rparr>"

definition arriving :: "item list \<Rightarrow> tick" where
  "arriving xs = \<lparr>arrivals = xs, log_raises = None, finished = []\<rparr>"

definition sink_failure :: "item \<Rightarrow> tick" where
  "sink_failure x = \<lparr>arrivals = [x], log_raises = Some (OtherError ''disk full''), finished = []\<rparr>"

lemma running_eq:
  "running = \<lparr>d_runlock = True, sig_exit = False, d_thread = Looping, main_queue = [],
     logged = [],
     threads = [\<lparr>wname = 0, consumerType = Some [DataLineT], consumer_type = [DataLineT],
                 exitSig = False, wqueue = [], unfinished_tasks = 0, w_alive = True\<rparr>],
     active_daemons = [], live_daemons = Map.empty, alive = {}, next_tid = 0,
     started = [], cond_calls = []\<rparr>"
  by (simp add: running_def run_start_def start_def new_dispatcher_def data_plugin_def)

lemmas loop_eval = run_step_def run_iter_def daemon_phase_def prune_def check_daemon_def
  spawn_def live_instances_def put_def put_nowait_def isinstance_def Let_def



theorem log_failure_ends_run_witness:
  "d_thread running = Looping \<and> \<not> sig_exit running
   \<and> main_queue running @ arrivals (sink_failure (DataLine ''a'')) = DataLine ''a'' # []
   \<and> d_thread (run_step [cmd_daemon] (sink_failure (DataLine ''a'')) running)
        = Died (OtherError ''disk full'')
   \<and> threads (run_step [cmd_daemon] (sink_failure (DataLine ''a'')) running) = threads running
   \<and> run_loop [cmd_daemon] [arriving [DataLine ''b'']]
        (run_step [cmd_daemon] (sink_failure (DataLine ''a'')) running)
        = run_step [cmd_daemon] (sink_failure (DataLine ''a'')) running
   \<and> main_queue running @ arrivals (arriving [DataLine ''a'']) = DataLine ''a'' # []
   \<and> logged (run_step [cmd_daemon] (arriving [DataLine ''a'']) running) = [DataLine ''a'']"
proof -
  have h: "d_thread running = Looping" "\<not> sig_exit running"
    "main_queue running @ arrivals (sink_failure (DataLine ''a'')) = DataLine ''a'' # []"
    "main_queue running @ arrivals (arriving [DataLine ''a'']) = DataLine ''a'' # []"
    "log_raises (sink_failure (DataLine ''a'')) = Some (OtherError ''disk full'')"
    "log_raises (arriving [DataLine ''a'']) = None"
    "logged running = []"
    by (simp_all add: running_eq sink_failure_def arriving_def)
  from log_failure_ends_run [OF h(1,2,3), of "[cmd_daemon]" "[arriving [DataLine ''b'']]"]
    log_failure_ends_run [OF h(1,2,4), of "[cmd_daemon]" "[]"] h
  show ?thesis by simp
qed






section \<open>Dispatcher.exit\<close>

text \<open>
  \<^verbatim>\<open>exit\<close> runs on the caller's thread while the other threads go on. What they do
  in the meantime: a worker takes an item from its queue, a worker marks an item done,
  a worker's thread ends, a daemon's thread ends, the dispatcher's thread runs the
  first lines of \<^verbatim>\<open>run\<close> (with the registered plugin classes) or takes one turn of
  its loop. (\<^verbatim>\<open>get\<close> on an empty queue and \<^verbatim>\<open>task_done\<close> on a queue without
  unfinished tasks raise in the worker and leave the queue as it is.)
\<close>

datatype env_event = WorkerGet nat | WorkerTaskDone nat | WorkerEnds nat | DaemonEnds nat
  | DispatcherStart "plugin_class list" | DispatcherStep tick

definition update_worker :: "nat \<Rightarrow> (worker \<Rightarrow> worker) \<Rightarrow> dispatcher \<Rightarrow> dispatcher" where
  "update_worker i f s =
     (if i < length (threads s) then s\<lparr>threads := (threads s)[i := f (threads s ! i)]\<rparr> else s)"

fun env_step :: "daemon_class list \<Rightarrow> env_event \<Rightarrow> dispatcher \<Rightarrow> dispatcher" where
  "env_step ds (WorkerGet i) s = update_worker i (\<lambda>w. w\<lparr>wqueue := tl (wqueue w)\<rparr>) s"
| "env_step ds (WorkerTaskDone i) s =
     update_worker i (\<lambda>w. w\<lparr>unfinished_tasks := unfinished_tasks w - 1\<rparr>) s"
| "env_step ds (WorkerEnds i) s = update_worker i (\<lambda>w. w\<lparr>w_alive := False\<rparr>) s"
| "env_step ds (DaemonEnds t) s = s\<lparr>alive := alive s - {t}\<rparr>"
| "env_step ds (DispatcherStart ps) s = run_start ps s"
| "env_step ds (DispatcherStep t) s = run_step ds t s"

text \<open>
  A blocking call waits until its condition holds, while the other threads take their
  steps; \<open>None\<close> when the steps given run out before it holds.
\<close>

fun await :: "(dispatcher \<Rightarrow> bool) \<Rightarrow> daemon_class list \<Rightarrow> env_event list \<Rightarrow> dispatcher
    \<Rightarrow> (env_event list \<times> dispatcher) option" where
  "await c ds [] s = (if c s then Some ([], s) else None)"
| "await c ds (e # es) s = (if c s then Some (e # es, s) else await c ds es (env_step ds e s))"

text \<open>\<^verbatim>\<open>thread.exit(join=join)\<close> for the plugin instance at position \<open>i\<close> of \<open>threads\<close>.\<close>

definition exit_thread :: "bool \<Rightarrow> daemon_class list \<Rightarrow> nat \<Rightarrow> env_event list \<Rightarrow> dispatcher
    \<Rightarrow> (env_event list \<times> dispatcher) option" where
  "exit_thread join ds i es s =
     (case await (\<lambda>s. plugin_exit join (threads s ! i) \<noteq> Blocks) ds es s of
        None \<Rightarrow> None
      | Some (es', s') \<Rightarrow>
          Some (es', update_worker i (\<lambda>w. state_after w (plugin_exit join w)) s'))"

text \<open>
  Modelled from the spec: \<^verbatim>\<open>PluginDaemon.exit\<close> is not among the sources; the
  specification has \<^verbatim>\<open>exit\<close> on a daemon instance block, with \<^verbatim>\<open>join\<close> set, until
  the instance's thread has ended.
\<close>

definition exit_daemon :: "bool \<Rightarrow> daemon_class list \<Rightarrow> nat \<Rightarrow> env_event list \<Rightarrow> dispatcher
    \<Rightarrow> (env_event list \<times> dispatcher) option" where
  "exit_daemon join ds t es s = await (\<lambda>s. if join then t \<notin> alive s else True) ds es s"

text \<open>
  \<^verbatim>\<open>
  def _exit_threads(self, join=False):
      for thread in self._threads:
          thread.exit(join=join)
      for daemon in self._active_daemons:
          daemon.exit(join=join)
  \<close>
  The plugin instances are taken in the order of \<open>threads\<close>. (The record sink's thread
  is in \<^verbatim>\<open>_threads\<close> as well; its \<^verbatim>\<open>exit\<close> is not among the sources and is taken to
  return.) The steps of the other threads are taken where \<^verbatim>\<open>exit\<close> waits; the
  statements of \<^verbatim>\<open>exit\<close> between two waits only set flags and put one item.
\<close>

fun exit_plugins :: "bool \<Rightarrow> daemon_class list \<Rightarrow> nat list \<Rightarrow> env_event list \<Rightarrow> dispatcher
    \<Rightarrow> (env_event list \<times> dispatcher) option" where
  "exit_plugins join ds [] es s = Some (es, s)"
| "exit_plugins join ds (i # is) es s =
     (case exit_thread join ds i es s of
        None \<Rightarrow> None
      | Some (es', s') \<Rightarrow> exit_plugins join ds is es' s')"

fun exit_daemons :: "bool \<Rightarrow> daemon_class list \<Rightarrow> nat list \<Rightarrow> env_event list \<Rightarrow> dispatcher
    \<Rightarrow> (env_event list \<times> dispatcher) option" where
  "exit_daemons join ds [] es s = Some (es, s)"
| "exit_daemons join ds (t # ts) es s =
     (case exit_daemon join ds t es s of
        None \<Rightarrow> None
      | Some (es', s') \<Rightarrow> exit_daemons join ds ts es' s')"

definition exit_threads :: "bool \<Rightarrow> daemon_class list \<Rightarrow> env_event list \<Rightarrow> dispatcher
    \<Rightarrow> (env_event list \<times> dispatcher) option" where
  "exit_threads join ds es s =
     (case exit_plugins join ds [0..<length (threads s)] es s of
        None \<Rightarrow> None
      | Some (es', s') \<Rightarrow> exit_daemons join ds (active_daemons s') es' s')"

text \<open>
  \<^verbatim>\<open>
  def exit(self, join=False):
      self.sig_exit.set()
      if self.is_alive():
          self._queue.put(None)
      self._exit_threads(join=join)
      if join:
          self.join()
  \<close>
  \<^verbatim>\<open>Thread.join\<close> raises \<^verbatim>\<open>RuntimeError\<close> on a thread that was never started and
  otherwise waits until the thread has ended. The outcome is \<open>Blocks\<close> when the steps
  given to the other threads do not let a wait come through.
\<close>

definition exit :: "bool \<Rightarrow> daemon_class list \<Rightarrow> env_event list \<Rightarrow> dispatcher
    \<Rightarrow> dispatcher outcome" where
  "exit join ds es s =
     (let s1 = s\<lparr>sig_exit := True\<rparr>;
          s2 = (if is_alive s1 then s1\<lparr>main_queue := main_queue s1 @ [PyNone]\<rparr> else s1)
      in case exit_threads join ds es s2 of
           None \<Rightarrow> Blocks
         | Some (es', s3) \<Rightarrow>
             if join then
               (if d_thread s3 = NotStarted then Raises RuntimeError s3
                else case await (\<lambda>s. \<not> is_alive s) ds es' s3 of
                       None \<Rightarrow> Blocks
                     | Some (es'', s4) \<Rightarrow> Returns s4)
             else Returns s3)"

subsection \<open>What the other threads never undo\<close>




lemma run_iter_d_thread: "d_thread (snd (run_iter ds t s)) = d_thread s"
proof (cases "main_queue s @ arrivals t")
  case Nil
  then show ?thesis by (simp add: run_iter_def daemon_phase_frame)
next
  case (Cons x q)
  obtain r ws where f: "fan_out x (threads s) = (r, ws)" by (cases "fan_out x (threads s)")
  show ?thesis
    using Cons f
    by (cases "log_raises t"; cases r) (simp_all add: run_iter_def Let_def daemon_phase_frame)
qed











subsection \<open>While no worker marks a task done\<close>










subsection \<open>The lock after a run that ended by the exit signal\<close>

text \<open>
  A thread that was in the loop is still in it, or has ended by an exception, or has
  returned from \<^verbatim>\<open>run\<close> and then the lock is free. No step of any thread breaks this.
\<close>

definition lock_follows_thread :: "dispatcher \<Rightarrow> bool" where
  "lock_follows_thread s \<longleftrightarrow>
     d_thread s = Looping \<or> (d_thread s = Finished \<and> \<not> d_runlock s) \<or> (\<exists>e. d_thread s = Died e)"

lemma run_step_lock: "lock_follows_thread s \<Longrightarrow> lock_follows_thread (run_step ds t s)"
  using run_iter_d_thread [of ds t s]
  by (cases "run_iter ds t s"; cases "fst (run_iter ds t s)")
    (auto simp: run_step_def lock_follows_thread_def)

lemma env_step_lock: "lock_follows_thread s \<Longrightarrow> lock_follows_thread (env_step ds e s)"
  by (cases e)
    (simp_all add: run_step_lock, auto simp: lock_follows_thread_def update_worker_def run_start_def)

lemma await_lock:
  "await c ds es s = Some (es', s') \<Longrightarrow> lock_follows_thread s \<Longrightarrow> lock_follows_thread s'"
proof (induction es arbitrary: s)
  case Nil
  then show ?case by (simp split: if_splits)
next
  case (Cons e es)
  show ?case
  proof (cases "c s")
    case True
    with Cons.prems show ?thesis by simp
  next
    case False
    with Cons.prems have "await c ds es (env_step ds e s) = Some (es', s')" by simp
    from Cons.IH [OF this] Cons.prems(2) show ?thesis by (simp add: env_step_lock)
  qed
qed

lemma exit_plugins_lock:
  "exit_plugins join ds is es s = Some (es', s') \<Longrightarrow> lock_follows_thread s \<Longrightarrow> lock_follows_thread s'"
proof (induction "is" arbitrary: es s)
  case Nil
  then show ?case by simp
next
  case (Cons i "is")
  from Cons.prems(1) obtain es1 s0 where a: "await (\<lambda>s. plugin_exit join (threads s ! i) \<noteq> Blocks) ds es s = Some (es1, s0)"
    and r: "exit_plugins join ds is es1 (update_worker i (\<lambda>w. state_after w (plugin_exit join w)) s0) = Some (es', s')"
    by (auto simp: exit_thread_def split: option.splits)
  from await_lock [OF a Cons.prems(2)]
  have "lock_follows_thread (update_worker i (\<lambda>w. state_after w (plugin_exit join w)) s0)"
    by (simp add: lock_follows_thread_def update_worker_def)
  with Cons.IH [OF r] show ?case by simp
qed

lemma exit_daemons_lock:
  "exit_daemons join ds ts es s = Some (es', s') \<Longrightarrow> lock_follows_thread s \<Longrightarrow> lock_follows_thread s'"
proof (induction ts arbitrary: es s)
  case Nil
  then show ?case by simp
next
  case (Cons t ts)
  from Cons.prems(1) obtain es1 s1 where a: "exit_daemon join ds t es s = Some (es1, s1)"
    and r: "exit_daemons join ds ts es1 s1 = Some (es', s')"
    by (auto split: option.splits)
  from a Cons.prems(2) have "lock_follows_thread s1"
    unfolding exit_daemon_def by (rule await_lock)
  with Cons.IH [OF r] show ?case by simp
qed

text \<open>
  When the loop of a running dispatcher has ended by the exit signal, the lock is free
  once \<^verbatim>\<open>exit(join=True)\<close> has returned.
\<close>

lemma exit_releases_after_normal_end:
  assumes "exit True ds es s = Returns s'" and "d_thread s = Looping"
    and "d_thread s' = Finished"
  shows "\<not> d_runlock s'"
proof -
  let ?s1 = "s\<lparr>sig_exit := True\<rparr>"
  let ?s2 = "if is_alive ?s1 then ?s1\<lparr>main_queue := main_queue ?s1 @ [PyNone]\<rparr> else ?s1"
  from assms(2) have l2: "lock_follows_thread ?s2" by (simp add: lock_follows_thread_def)
  from assms(1) obtain es1 s3 es2 where t: "exit_threads True ds es ?s2 = Some (es1, s3)"
    and a: "await (\<lambda>s. \<not> is_alive s) ds es1 s3 = Some (es2, s')"
    by (auto simp: exit_def Let_def split: option.splits if_splits)
  from t obtain es0 s0 where p: "exit_plugins True ds [0..<length (threads ?s2)] es ?s2 = Some (es0, s0)"
    and d: "exit_daemons True ds (active_daemons s0) es0 s0 = Some (es1, s3)"
    by (auto simp: exit_threads_def split: option.splits)
  from exit_plugins_lock [OF p l2] have "lock_follows_thread s0" .
  from exit_daemons_lock [OF d this] have "lock_follows_thread s3" .
  from await_lock [OF a this] assms(3) show ?thesis
    by (simp add: lock_follows_thread_def)
qed

section \<open>Shutting down the run with one worker and one daemon\<close>

fun returned :: "'a outcome \<Rightarrow> bool" where
  "returned (Returns s) = True"
| "returned (Raises e s) = False"
| "returned Blocks = False"





lemmas exit_eval = exit_def exit_threads_def exit_thread_def exit_daemon_def plugin_exit_def
  update_worker_def is_alive_def



text \<open>The run after the record sink has raised on the first item.\<close>

definition crashed :: dispatcher where
  "crashed = run_step [cmd_daemon] (sink_failure (DataLine ''a'')) running"


text \<open>
  Before the loop: \<^verbatim>\<open>exit(join=True)\<close> on a dispatcher that was started and has not
  yet taken the lock finds \<^verbatim>\<open>_threads\<close> empty and waits for the thread; \<^verbatim>\<open>run\<close> then
  starts the plugins and its loop ends at once. The call returns, and the plugin
  instance never had its exit signal set.
\<close>

lemma exit_before_loop_misses_plugins:
  "d_thread (snd (start new_dispatcher)) = Waiting
   \<and> returned (exit True [cmd_daemon] [DispatcherStart [data_plugin], DispatcherStep quiet]
        (snd (start new_dispatcher)))
   \<and> map exitSig (threads (state_after (snd (start new_dispatcher))
        (exit True [cmd_daemon] [DispatcherStart [data_plugin], DispatcherStep quiet]
          (snd (start new_dispatcher))))) = [False]"
  by (simp add: start_def new_dispatcher_def run_start_def data_plugin_def quiet_def
      cmd_daemon_def loop_eval exit_eval)

text \<open>
  C7 at a run whose loop ended by an exception of the record sink: the run had taken the
  lock; \<^verbatim>\<open>exit\<close> returns, with or without \<^verbatim>\<open>join\<close>, and the lock is still held.
  (\<^verbatim>\<open>release_lock\<close> is the last statement of \<^verbatim>\<open>run\<close>, reached only when the loop
  ends by the exit signal; \<^verbatim>\<open>exit\<close> does not release the lock itself.)
\<close>

theorem lock_held_after_sink_failure:
  "d_thread running = Looping \<and> d_runlock running
   \<and> d_thread crashed = Died (OtherError ''disk full'')
   \<and> returned (exit True [cmd_daemon] [] crashed)
   \<and> d_runlock (state_after crashed (exit True [cmd_daemon] [] crashed))
   \<and> returned (exit False [cmd_daemon] [] crashed)
   \<and> d_runlock (state_after crashed (exit False [cmd_daemon] [] crashed))"
  by (simp add: crashed_def running_eq sink_failure_def cmd_daemon_def loop_eval exit_eval)

section \<open>The source supervisor (SerialLogger.run)\<close>

text \<open>
  A \<^verbatim>\<open>threading.Thread\<close> object: its name and its identity (objects are numbered as
  they are created).
\<close>

record thread =
  tname :: string
  tid :: nat

text \<open>
  The state of \<^verbatim>\<open>run\<close>: the local list \<^verbatim>\<open>threads\<close>, the threads for which
  \<^verbatim>\<open>is_alive()\<close> holds, the next identity, and \<^verbatim>\<open>exit_signal\<close>. The field
  \<open>sv_spawned\<close> only records the identities of the ingestion threads
  (\<^verbatim>\<open>target=self.device_listener\<close>) started so far, oldest first.
\<close>

record supervisor =
  sv_threads :: "thread list"
  sv_alive :: "nat set"
  sv_next :: nat
  sv_spawned :: "nat list"
  exit_signal :: bool

text \<open>
  Lines 274 to 283: the two utility threads are created, started and tracked.
\<close>

definition sup_init :: supervisor where
  "sup_init = \<lparr>sv_threads = [\<lparr>tname = ''ledsignal'', tid = 0\<rparr>, \<lparr>tname = ''usbutility'', tid = 1\<rparr>],
     sv_alive = {0, 1}, sv_next = 2, sv_spawned = [], exit_signal = False\<rparr>"

text \<open>
  The state in which the loop is entered: the utility threads in \<open>D\<close> have ended by
  then (the LED thread returns at once where the GPIO module is missing).
\<close>

definition sup_entry :: "nat set \<Rightarrow> supervisor" where
  "sup_entry D = sup_init\<lparr>sv_alive := sv_alive sup_init - D\<rparr>"

text \<open>
  The name \<^verbatim>\<open>threading.Thread(name=...)\<close> gives its thread: the name passed, or, for
  an empty name, the default \<^verbatim>\<open>Thread-N\<close>, where \<open>N\<close> counts the threads named by
  default so far, the new one included (newer versions of the library append the
  target's name). \<open>decimal\<close> writes a number in base ten.
\<close>

fun decimal :: "nat \<Rightarrow> string" where
  "decimal n =
     (if n < 10 then [''0123456789'' ! n]
      else decimal (n div 10) @ [''0123456789'' ! (n mod 10)])"

declare decimal.simps [simp del]

definition thread_name :: "string \<Rightarrow> nat \<Rightarrow> string" where
  "thread_name name n = (if name = [] then ''Thread-'' @ decimal (Suc n) else name)"

text \<open>
  The body of the loop:
  \<^verbatim>\<open>
  threads = list(filter(lambda x: x.is_alive(), threads[:]))
  if self.device not in [t.name for t in threads]:
      dev_thread = threading.Thread(target=self.device_listener,
                                    name=self.device, kwargs={'device': self.device})
      dev_thread.start()
      threads.append(dev_thread)
  \<close>
  Every other thread of the program is created with a name, so the threads named by
  default are the ingestion threads started for an empty device name.
\<close>

definition poll :: "string \<Rightarrow> supervisor \<Rightarrow> supervisor" where
  "poll device s =
     (let ts = filter (\<lambda>t. tid t \<in> sv_alive s) (sv_threads s) in
      if device \<notin> set (map tname ts) then
        s\<lparr>sv_threads := ts @ [\<lparr>tname = thread_name device (length (sv_spawned s)),
                                tid = sv_next s\<rparr>],
          sv_alive := insert (sv_next s) (sv_alive s),
          sv_next := Suc (sv_next s),
          sv_spawned := sv_spawned s @ [sv_next s]\<rparr>
      else s\<lparr>sv_threads := ts\<rparr>)"

text \<open>
  One turn of \<^verbatim>\<open>while not self.exit_signal.is_set():\<close>. A \<^verbatim>\<open>KeyboardInterrupt\<close>
  ends the loop (through \<^verbatim>\<open>clean_exit\<close> or through the handler of the main block,
  which both set the exit signal); otherwise the body runs and then
  \<^verbatim>\<open>time.sleep(self.thread_poll_interval)\<close>, during which the threads in \<open>ended\<close> end.
\<close>

record sv_tick =
  interrupt :: bool
  ended :: "nat list"

definition sup_step :: "string \<Rightarrow> sv_tick \<Rightarrow> supervisor \<Rightarrow> supervisor" where
  "sup_step device t s =
     (if exit_signal s then s
      else if interrupt t then s\<lparr>exit_signal := True\<rparr>
      else (poll device s)\<lparr>sv_alive := sv_alive (poll device s) - set (ended t)\<rparr>)"

fun sup_run :: "string \<Rightarrow> sv_tick list \<Rightarrow> supervisor \<Rightarrow> supervisor" where
  "sup_run device [] s = s"
| "sup_run device (t # ts) s = sup_run device ts (sup_step device t s)"

text \<open>The ingestion threads that are running, oldest first.\<close>

definition live_ingestion :: "supervisor \<Rightarrow> nat list" where
  "live_ingestion s = filter (\<lambda>i. i \<in> sv_alive s) (sv_spawned s)"

subsection \<open>The invariant of the supervisor\<close>

definition sup_inv :: "string \<Rightarrow> supervisor \<Rightarrow> bool" where
  "sup_inv device s \<longleftrightarrow>
     (\<forall>t \<in> set (sv_threads s). tid t < sv_next s)
   \<and> (\<forall>i \<in> set (sv_spawned s). i < sv_next s)
   \<and> (\<forall>i \<in> set (sv_spawned s). i \<in> sv_alive s \<longrightarrow> \<lparr>tname = device, tid = i\<rparr> \<in> set (sv_threads s))
   \<and> (sv_spawned s \<noteq> [] \<longrightarrow> (\<forall>t \<in> set (sv_threads s). tname t = device \<longrightarrow> tid t \<in> set (sv_spawned s)))
   \<and> length (live_ingestion s) \<le> 1"

lemma sup_inv_init: "sup_inv device (sup_entry D)"
  by (simp add: sup_inv_def sup_entry_def sup_init_def live_ingestion_def)

lemma no_name_no_ingestion:
  assumes "sup_inv device s"
    and "device \<notin> set (map tname (filter (\<lambda>t. tid t \<in> sv_alive s) (sv_threads s)))"
  shows "live_ingestion s = []"
proof -
  have "i \<notin> sv_alive s" if "i \<in> set (sv_spawned s)" for i
  proof
    assume a: "i \<in> sv_alive s"
    with assms(1) that have "\<lparr>tname = device, tid = i\<rparr> \<in> set (sv_threads s)"
      by (simp add: sup_inv_def)
    with a have "\<lparr>tname = device, tid = i\<rparr> \<in> set (filter (\<lambda>t. tid t \<in> sv_alive s) (sv_threads s))"
      by simp
    then have "tname \<lparr>tname = device, tid = i\<rparr> \<in> tname ` set (filter (\<lambda>t. tid t \<in> sv_alive s) (sv_threads s))"
      by (rule imageI)
    with assms(2) show False by simp
  qed
  then show ?thesis by (simp add: live_ingestion_def filter_empty_conv)
qed

lemma filter_fresh:
  fixes n :: nat
  assumes "\<forall>i \<in> set xs. i < n"
  shows "filter (\<lambda>i. i \<in> insert n A) xs = filter (\<lambda>i. i \<in> A) xs"
  using assms by (induction xs) auto

lemma filter_fewer: "length (filter (\<lambda>i. P i \<and> Q i) xs) \<le> length (filter P xs)"
  by (induction xs) auto

lemma sup_inv_poll:
  assumes "sup_inv device s" and ne: "device \<noteq> []"
  shows "sup_inv device (poll device s)"
proof (cases "device \<in> set (map tname (filter (\<lambda>t. tid t \<in> sv_alive s) (sv_threads s)))")
  case True
  then have p: "poll device s = s\<lparr>sv_threads := filter (\<lambda>t. tid t \<in> sv_alive s) (sv_threads s)\<rparr>"
    by (simp add: poll_def)
  from assms show ?thesis
    unfolding p by (auto simp: sup_inv_def live_ingestion_def)
next
  case False
  then have p: "poll device s =
      s\<lparr>sv_threads := filter (\<lambda>t. tid t \<in> sv_alive s) (sv_threads s) @ [\<lparr>tname = device, tid = sv_next s\<rparr>],
        sv_alive := insert (sv_next s) (sv_alive s),
        sv_next := Suc (sv_next s),
        sv_spawned := sv_spawned s @ [sv_next s]\<rparr>"
    using ne by (simp add: poll_def thread_name_def)
  from assms(1) False have none: "live_ingestion s = []" by (rule no_name_no_ingestion)
  from assms have lt: "\<forall>i \<in> set (sv_spawned s). i < sv_next s" by (simp add: sup_inv_def)
  have l: "live_ingestion (poll device s) = [sv_next s]"
    using none filter_fresh [OF lt, of "sv_alive s"]
    unfolding p by (simp add: live_ingestion_def)
  have a: "\<forall>t \<in> set (sv_threads (poll device s)). tid t < sv_next (poll device s)"
    using assms unfolding p by (auto simp: sup_inv_def less_Suc_eq)
  have b: "\<forall>i \<in> set (sv_spawned (poll device s)). i < sv_next (poll device s)"
    using assms unfolding p by (auto simp: sup_inv_def less_Suc_eq)
  have c: "\<forall>i \<in> set (sv_spawned (poll device s)). i \<in> sv_alive (poll device s) \<longrightarrow>
      \<lparr>tname = device, tid = i\<rparr> \<in> set (sv_threads (poll device s))"
    using assms lt unfolding p by (auto simp: sup_inv_def)
  have d: "\<forall>t \<in> set (sv_threads (poll device s)). tname t = device \<longrightarrow>
      tid t \<in> set (sv_spawned (poll device s))"
    using False unfolding p by auto
  from a b c d l show ?thesis by (simp add: sup_inv_def)
qed

lemma sup_inv_deaths:
  assumes "sup_inv device s"
  shows "sup_inv device (s\<lparr>sv_alive := sv_alive s - D\<rparr>)"
proof -
  have "length (filter (\<lambda>i. i \<in> sv_alive s \<and> i \<notin> D) (sv_spawned s))
      \<le> length (filter (\<lambda>i. i \<in> sv_alive s) (sv_spawned s))"
    by (rule filter_fewer)
  then show ?thesis
    using assms by (auto simp: sup_inv_def live_ingestion_def)
qed

lemma sup_inv_step:
  assumes "sup_inv device s" and "device \<noteq> []"
  shows "sup_inv device (sup_step device t s)"
proof -
  have "sup_inv device (s\<lparr>exit_signal := True\<rparr>)"
    using assms(1) by (simp add: sup_inv_def live_ingestion_def)
  with assms(1) sup_inv_deaths [OF sup_inv_poll [OF assms], of "set (ended t)"]
  show ?thesis by (simp add: sup_step_def)
qed

lemma sup_inv_run:
  "sup_inv device s \<Longrightarrow> device \<noteq> [] \<Longrightarrow> sup_inv device (sup_run device ts s)"
  by (induction ts arbitrary: s) (simp_all add: sup_inv_step)

text \<open>
  C8, as the code has it. For every source identifier that is not the empty string
  and after any number of turns of the supervisor's loop, whichever threads end before
  and in between, at most one ingestion thread is alive. And
  once an ingestion thread has been started and none is alive any more, the next
  execution of the loop's body keeps exactly the tracked threads that are alive, in
  their order and as they are, and appends one new thread named after the source; the
  new thread is none of the threads tracked before, it is the only ingestion thread
  started by that poll, and it is the one ingestion thread alive afterwards.
\<close>

theorem one_ingestion_thread_and_respawn:
  assumes "device \<noteq> []"
  shows "length (live_ingestion (sup_run device ts (sup_entry D))) \<le> 1
   \<and> (sv_spawned (sup_run device ts (sup_entry D)) \<noteq> []
      \<and> live_ingestion (sup_run device ts (sup_entry D)) = [] \<longrightarrow>
        sv_threads (poll device (sup_run device ts (sup_entry D)))
          = filter (\<lambda>t. tid t \<in> sv_alive (sup_run device ts (sup_entry D)))
              (sv_threads (sup_run device ts (sup_entry D)))
            @ [\<lparr>tname = device, tid = sv_next (sup_run device ts (sup_entry D))\<rparr>]
      \<and> sv_next (sup_run device ts (sup_entry D)) \<notin> tid ` set (sv_threads (sup_run device ts (sup_entry D)))
      \<and> sv_spawned (poll device (sup_run device ts (sup_entry D)))
          = sv_spawned (sup_run device ts (sup_entry D)) @ [sv_next (sup_run device ts (sup_entry D))]
      \<and> live_ingestion (poll device (sup_run device ts (sup_entry D)))
          = [sv_next (sup_run device ts (sup_entry D))])"
proof -
  let ?s = "sup_run device ts (sup_entry D)"
  have inv: "sup_inv device ?s" using sup_inv_init assms by (rule sup_inv_run)
  then have one: "length (live_ingestion ?s) \<le> 1" by (simp add: sup_inv_def)
  have fresh: "sv_next ?s \<notin> tid ` set (sv_threads ?s)"
    using inv by (auto simp: sup_inv_def)
  have lt: "\<forall>i \<in> set (sv_spawned ?s). i < sv_next ?s" using inv by (simp add: sup_inv_def)
  {
    assume sp: "sv_spawned ?s \<noteq> []" and dead: "live_ingestion ?s = []"
    have no: "device \<notin> set (map tname (filter (\<lambda>t. tid t \<in> sv_alive ?s) (sv_threads ?s)))"
    proof
      assume "device \<in> set (map tname (filter (\<lambda>t. tid t \<in> sv_alive ?s) (sv_threads ?s)))"
      then obtain t where t: "t \<in> set (sv_threads ?s)" "tid t \<in> sv_alive ?s" "tname t = device"
        by auto
      with inv sp have "tid t \<in> set (sv_spawned ?s)" by (simp add: sup_inv_def)
      with t(2) have "tid t \<in> set (live_ingestion ?s)" by (simp add: live_ingestion_def)
      with dead show False by simp
    qed
    then have p: "poll device ?s =
      ?s\<lparr>sv_threads := filter (\<lambda>t. tid t \<in> sv_alive ?s) (sv_threads ?s) @ [\<lparr>tname = device, tid = sv_next ?s\<rparr>],
        sv_alive := insert (sv_next ?s) (sv_alive ?s),
        sv_next := Suc (sv_next ?s),
        sv_spawned := sv_spawned ?s @ [sv_next ?s]\<rparr>"
      using assms by (simp add: poll_def thread_name_def)
    have "live_ingestion (poll device ?s) = [sv_next ?s]"
      using dead filter_fresh [OF lt, of "sv_alive ?s"]
      unfolding p by (simp add: live_ingestion_def)
    with p have "sv_threads (poll device ?s)
          = filter (\<lambda>t. tid t \<in> sv_alive ?s) (sv_threads ?s) @ [\<lparr>tname = device, tid = sv_next ?s\<rparr>]
      \<and> sv_spawned (poll device ?s) = sv_spawned ?s @ [sv_next ?s]
      \<and> live_ingestion (poll device ?s) = [sv_next ?s]"
      by simp
  }
  with one fresh show ?thesis by blast
qed

text \<open>
  The LED thread has ended at once; the thread for \<^verbatim>\<open>/dev/ttyS0\<close> is started by the
  first poll and ends after the second.
\<close>

definition ttyS0_dies :: "sv_tick list" where
  "ttyS0_dies = [\<lparr>interrupt = False, ended = []\<rparr>, \<lparr>interrupt = False, ended = [2]\<rparr>]"

theorem one_ingestion_thread_and_respawn_witness:
  "sv_spawned (sup_run ''/dev/ttyS0'' ttyS0_dies (sup_entry {0})) = [2]
   \<and> live_ingestion (sup_run ''/dev/ttyS0'' ttyS0_dies (sup_entry {0})) = []
   \<and> sv_threads (sup_run ''/dev/ttyS0'' ttyS0_dies (sup_entry {0}))
       = [\<lparr>tname = ''usbutility'', tid = 1\<rparr>, \<lparr>tname = ''/dev/ttyS0'', tid = 2\<rparr>]
   \<and> sv_threads (poll ''/dev/ttyS0'' (sup_run ''/dev/ttyS0'' ttyS0_dies (sup_entry {0})))
       = [\<lparr>tname = ''usbutility'', tid = 1\<rparr>, \<lparr>tname = ''/dev/ttyS0'', tid = 3\<rparr>]
   \<and> live_ingestion (poll ''/dev/ttyS0'' (sup_run ''/dev/ttyS0'' ttyS0_dies (sup_entry {0}))) = [3]"
proof -
  have s: "sup_run ''/dev/ttyS0'' ttyS0_dies (sup_entry {0}) =
      \<lparr>sv_threads = [\<lparr>tname = ''usbutility'', tid = 1\<rparr>, \<lparr>tname = ''/dev/ttyS0'', tid = 2\<rparr>],
       sv_alive = {1}, sv_next = 3, sv_spawned = [2], exit_signal = False\<rparr>"
    by (simp add: ttyS0_dies_def sup_entry_def sup_init_def sup_step_def poll_def
        thread_name_def Let_def)
  have h: "sv_spawned (sup_run ''/dev/ttyS0'' ttyS0_dies (sup_entry {0})) \<noteq> []
      \<and> live_ingestion (sup_run ''/dev/ttyS0'' ttyS0_dies (sup_entry {0})) = []"
    by (simp add: s live_ingestion_def)
  have n: "''/dev/ttyS0'' \<noteq> []" by simp
  from one_ingestion_thread_and_respawn [OF n, of ttyS0_dies "{0}"] h
  show ?thesis by (simp add: s live_ingestion_def poll_def thread_name_def Let_def)
qed

text \<open>
  C8 as stated fails for the empty source identifier (\<^verbatim>\<open>-d ''\<close>): the thread started
  for it takes a default name, so no tracked thread ever bears the identifier, every
  poll starts another ingestion thread, and after two polls two of them are alive.
\<close>

definition two_polls :: "sv_tick list" where
  "two_polls = [\<lparr>interrupt = False, ended = []\<rparr>, \<lparr>interrupt = False, ended = []\<rparr>]"

theorem empty_device_counterexample:
  "live_ingestion (sup_run [] two_polls (sup_entry {})) = [2, 3]
   \<and> map tname (sv_threads (sup_run [] two_polls (sup_entry {})))
       = [''ledsignal'', ''usbutility'', ''Thread-1'', ''Thread-2'']"
  by (simp add: two_polls_def sup_entry_def sup_init_def sup_step_def poll_def
      thread_name_def live_ingestion_def decimal.simps Let_def)

section \<open>The bulk copy to removable storage (SerialLogger.usb_utility)\<close>








subsection \<open>Too little free space\<close>














end
